theory Spec2Isabelle
  imports Main "HOL-Library.Multiset"
begin

section \<open>Sacrifice grouper: \<open>getSacrifices\<close> of src/merge.ts\<close>

text \<open>
  An owned character is a \<open>Deno.KvEntry<Schema.Character>\<close>; \<open>getSacrifices\<close> reads
  only \<open>value.rating\<close> of it, and the tests tell entries apart by \<open>value.id\<close>.
  A rating is a JavaScript number, modelled as an integer.
\<close>

record character =
  char_id :: string
  rating :: int

datatype mode = ModeTarget | ModeMin | ModeMax

text \<open>
  The three ways \<open>getSacrifices\<close> can throw: a \<open>TypeError\<close> of the runtime (a method
  call or property read on \<open>undefined\<close>), the \<open>NonFetalError\<close> with the message
  \<open>merge-not-possible\<close>, and the \<open>NonFetalError\<close> with the message
  \<open>merge-insufficient\<close>, which carries \<open>possibilities[target - 1].length\<close> and the
  target.
\<close>

datatype merge_error = TypeError | MergeNotPossible | MergeInsufficient nat int

text \<open>
  \<open>split\<close> and \<open>possibilities\<close> are objects with exactly the keys 1 to 5. They are
  modelled as functions from the key; \<open>has_key\<close> says which reads are defined.
\<close>

definition has_key :: "int \<Rightarrow> bool" where
  "has_key k = (k = 1 \<or> k = 2 \<or> k = 3 \<or> k = 4 \<or> k = 5)"

definition split_key :: "character \<Rightarrow> int" where
  "split_key c = (if rating c = 5 then 4 else rating c)"

text \<open>
  The \<open>forEach\<close> that pushes every character of the sorted copy onto
  \<open>split[rating === 5 ? 4 : rating]\<close>. A rating outside 1..5 reads \<open>undefined\<close> and
  the call of \<open>push\<close> on it throws.
\<close>

fun split_push :: "character list \<Rightarrow> (int \<Rightarrow> character list) \<Rightarrow>
    merge_error + (int \<Rightarrow> character list)" where
  "split_push [] split = Inr split"
| "split_push (c # cs) split =
     (if has_key (split_key c)
      then split_push cs (split(split_key c := split (split_key c) @ [c]))
      else Inl TypeError)"

text \<open>
  \<open>utils.chunks\<close> is \<open>chunk\<close> of the Deno standard library (the commented-out
  \<open>chunks\<close> of src/utils.ts is the same function): consecutive slices of \<open>n\<close>
  elements, the last one possibly shorter. The library rejects a size that is not
  positive; \<open>getSacrifices\<close> only ever passes 5.
\<close>

function chunks :: "'a list \<Rightarrow> nat \<Rightarrow> 'a list list" where
  "chunks xs n =
     (if n = 0 \<or> xs = [] then [] else take n xs # chunks (drop n xs) n)"
  by pat_completeness auto
termination
  by (relation "measure (\<lambda>(xs, n). length xs)") auto

declare chunks.simps [simp del]

text \<open>
  One call of the callback of \<open>[1, 2, 3, 4, 5].forEach\<close>. A target that is
  \<open>undefined\<close> or 0 is falsy. With a truthy target the condition reads
  \<open>possibilities[target].length\<close>, which throws when \<open>target\<close> is not a key; when
  that list is not empty the callback returns at once.
\<close>

definition fold_previous :: "character list list \<Rightarrow> character list list" where
  "fold_previous prev = map concat (take (length prev div 5) (chunks prev 5))"

definition tier_body :: "(int \<Rightarrow> character list) \<Rightarrow> int \<Rightarrow>
    (int \<Rightarrow> character list list) \<Rightarrow> (int \<Rightarrow> character list list)" where
  "tier_body split i possibilities =
     (let p = (if i > 1
               then possibilities(i := possibilities i @ fold_previous (possibilities (i - 1)))
               else possibilities)
      in p(i := p i @ map (\<lambda>c. [c]) (split i)))"

definition tier_step :: "int option \<Rightarrow> (int \<Rightarrow> character list) \<Rightarrow> int \<Rightarrow>
    (int \<Rightarrow> character list list) \<Rightarrow> merge_error + (int \<Rightarrow> character list list)" where
  "tier_step target split i possibilities =
     (case target of
        None \<Rightarrow> Inr (tier_body split i possibilities)
      | Some t \<Rightarrow>
          if t = 0 then Inr (tier_body split i possibilities)
          else if \<not> has_key t then Inl TypeError
          else if possibilities t \<noteq> [] then Inr possibilities
          else Inr (tier_body split i possibilities))"

fun tiers_loop :: "int option \<Rightarrow> (int \<Rightarrow> character list) \<Rightarrow> int list \<Rightarrow>
    (int \<Rightarrow> character list list) \<Rightarrow> merge_error + (int \<Rightarrow> character list list)" where
  "tiers_loop target split [] possibilities = Inr possibilities"
| "tiers_loop target split (i # rest) possibilities =
     (case tier_step target split i possibilities of
        Inl e \<Rightarrow> Inl e
      | Inr p \<Rightarrow> tiers_loop target split rest p)"

text \<open>\<open>Array.prototype.findIndex\<close>, with \<open>None\<close> for the result -1.\<close>

fun findIndex :: "('a \<Rightarrow> bool) \<Rightarrow> 'a list \<Rightarrow> nat option" where
  "findIndex P [] = None"
| "findIndex P (x # xs) = (if P x then Some 0 else map_option Suc (findIndex P xs))"

definition enough :: "character list \<Rightarrow> bool" where
  "enough t = (5 \<le> length t)"

text \<open>
  The \<open>switch (mode)\<close>: \<open>min\<close> walks the tiers 5, 4, 3, 2 and \<open>max\<close> the tiers
  2, 3, 4, 5, each overwriting \<open>target\<close> at every tier that has a group of five or more.
\<close>

definition scan :: "(int \<Rightarrow> character list list) \<Rightarrow> int list \<Rightarrow> int option \<Rightarrow> int option" where
  "scan possibilities ns target =
     fold (\<lambda>n t. if findIndex enough (possibilities n) \<noteq> None then Some n else t) ns target"

fun resolve :: "mode \<Rightarrow> (int \<Rightarrow> character list list) \<Rightarrow> int option \<Rightarrow> int option" where
  "resolve ModeMin possibilities target = scan possibilities [5, 4, 3, 2] target"
| "resolve ModeMax possibilities target = scan possibilities [2, 3, 4, 5] target"
| "resolve ModeTarget possibilities target = target"

text \<open>
  The tail of \<open>getSacrifices\<close>: a falsy target is \<open>merge-not-possible\<close>; a target
  without a group of five or more is \<open>merge-insufficient\<close>, whose message reads
  \<open>possibilities[target - 1].length\<close> (a \<open>TypeError\<close> when \<open>target - 1\<close> is not a key).
\<close>

definition select :: "(int \<Rightarrow> character list list) \<Rightarrow> int option \<Rightarrow>
    merge_error + (character list \<times> int)" where
  "select possibilities target =
     (case target of
        None \<Rightarrow> Inl MergeNotPossible
      | Some t \<Rightarrow>
          if t = 0 then Inl MergeNotPossible
          else if \<not> has_key t then Inl TypeError
          else (case findIndex enough (possibilities t) of
                  None \<Rightarrow>
                    if has_key (t - 1)
                    then Inl (MergeInsufficient (length (possibilities (t - 1))) t)
                    else Inl TypeError
                | Some index \<Rightarrow> Inr (possibilities t ! index, t)))"

text \<open>
  \<open>toSorted\<close> sorts a copy, stably, by ascending rating; \<open>sort_key\<close> is a stable
  insertion sort. The argument list itself is never written to.
\<close>

definition getSacrifices :: "character list \<Rightarrow> mode \<Rightarrow> int option \<Rightarrow>
    merge_error + (character list \<times> int)" where
  "getSacrifices characters mode target =
     (case split_push (sort_key rating characters) (\<lambda>k. []) of
        Inl e \<Rightarrow> Inl e
      | Inr split \<Rightarrow>
          (case tiers_loop target split [1, 2, 3, 4, 5] (\<lambda>k. []) of
             Inl e \<Rightarrow> Inl e
           | Inr possibilities \<Rightarrow> select possibilities (resolve mode possibilities target)))"


section \<open>Shuffle and weighted sampler: \<open>shuffle\<close> and \<open>rng\<close> of src/utils.ts\<close>

text \<open>
  \<open>shuffle\<close> walks \<open>i\<close> from 0 to \<open>length - 1\<close> and exchanges \<open>array[i]\<close> with
  \<open>array[swap]\<close>, where \<open>swap = Math.floor(Math.random() * (i + 1))\<close> is some index
  in \<open>0..i\<close>. The random source is a parameter: \<open>rnd i\<close> is the draw of iteration
  \<open>i\<close>, reduced to \<open>0..i\<close>, so both indices of an exchange are below the length.
  The array is updated in place; the model returns it.
\<close>

definition exchange :: "nat \<Rightarrow> nat \<Rightarrow> 'a list \<Rightarrow> 'a list" where
  "exchange i swap array = (let temp = array ! swap in (array[swap := array ! i])[i := temp])"

definition shuffle :: "(nat \<Rightarrow> nat) \<Rightarrow> 'a list \<Rightarrow> 'a list" where
  "shuffle rnd array =
     fold (\<lambda>i a. exchange i (rnd i mod (i + 1)) a) [0..<length array] array"

text \<open>
  The table of \<open>rng\<close> is an object whose keys are the chances. It is modelled as
  the list of its entries in the order of \<open>Object.keys\<close> (which is also the order of
  \<open>Object.values\<close>), each key already read by \<open>parseInt\<close> as an integer.
  \<open>reduce\<close> without an initial value throws a \<open>TypeError\<close> on an empty array;
  a sum other than 100 throws the \<open>Error\<close> whose message carries the sum.
\<close>

datatype rng_error = ReduceOfEmptyArray | SumIsNot100 int

text \<open>
  The two nested loops: the index \<open>i\<close> is pushed \<open>chances[i]\<close> times (not at all
  when the chance is not positive).
\<close>

definition flat_array :: "int list \<Rightarrow> nat list" where
  "flat_array chances =
     concat (map (\<lambda>i. replicate (nat (chances ! i)) i) [0..<length chances])"

text \<open>
  A read of an array beyond its end, or at the index \<open>undefined\<close>, is \<open>undefined\<close>
  and does not throw: the two fields of the result are options.
\<close>

definition at_index :: "'a list \<Rightarrow> nat option \<Rightarrow> 'a option" where
  "at_index xs i = (case i of None \<Rightarrow> None
                    | Some n \<Rightarrow> if n < length xs then Some (xs ! n) else None)"

record 'a sample =
  "value" :: "'a option"
  chance :: "int option"

definition rng :: "(nat \<Rightarrow> nat) \<Rightarrow> (int \<times> 'a) list \<Rightarrow> rng_error + 'a sample" where
  "rng rnd dict =
     (let pool = map snd dict; chances = map fst dict
      in case chances of
           [] \<Rightarrow> Inl ReduceOfEmptyArray
         | c # rest \<Rightarrow>
             (let sum = foldl (+) c rest
              in if sum \<noteq> 100 then Inl (SumIsNot100 sum)
                 else (let shuffled = shuffle rnd (flat_array chances);
                           first = at_index shuffled (Some 0)
                       in Inr \<lparr>value = at_index pool first, chance = at_index chances first\<rparr>)))"


section \<open>Pool builder: \<open>pool\<close> of src/packs.ts\<close>

record pool_entry =
  entry_id :: string
  mediaId :: string
  entry_rating :: int

datatype CharacterRole = Main | Supporting | Background

text \<open>
  One value of packs/anilist/pool.json: the buckets \<open>ALL\<close>, \<open>MAIN\<close>,
  \<open>SUPPORTING\<close> and \<open>BACKGROUND\<close> of a popularity range.
\<close>

record pool_range =
  ALL_bucket :: "pool_entry list"
  MAIN_bucket :: "pool_entry list"
  SUPPORTING_bucket :: "pool_entry list"
  BACKGROUND_bucket :: "pool_entry list"

text \<open>\<open>range[role ?? 'ALL']\<close>.\<close>

fun bucket :: "CharacterRole option \<Rightarrow> pool_range \<Rightarrow> pool_entry list" where
  "bucket None r = ALL_bucket r"
| "bucket (Some Main) r = MAIN_bucket r"
| "bucket (Some Supporting) r = SUPPORTING_bucket r"
| "bucket (Some Background) r = BACKGROUND_bucket r"

datatype pool_error = UndefinedRange

text \<open>
  The cached part of the pool. \<open>anilist\<close> is the parsed JSON object as the list of
  its entries in key order (an object has each key once), and \<open>key\<close> is
  \<open>JSON.stringify(range)\<close>. With a numeric
  \<open>stars\<close> the \<open>ALL\<close> bucket of every value is concatenated; otherwise one bucket
  of one range is read, and a key that the object does not have throws a \<open>TypeError\<close>.
\<close>

definition cached :: "(string \<times> pool_range) list \<Rightarrow> string \<Rightarrow> CharacterRole option \<Rightarrow>
    int option \<Rightarrow> pool_error + pool_entry list" where
  "cached anilist key role stars =
     (case stars of
        Some s \<Rightarrow> Inr (fold (\<lambda>r pool. pool @ ALL_bucket r) (map snd anilist) [])
      | None \<Rightarrow>
          (case map_of anilist key of
             None \<Rightarrow> Inl UndefinedRange
           | Some r \<Rightarrow> Inr (bucket role r)))"

text \<open>
  The characters of the installed packs. Turning one pack character into a pool entry
  (lines 763 to 780) goes through \<open>packs.aggregate\<close>, the database and
  \<open>Rating.fromCharacter\<close>, none of which the pool's own logic depends on: it is the
  parameter \<open>entry_of\<close>, which gives \<open>None\<close> for a character without media, and
  \<open>filter(Boolean)\<close> drops those. A manifest without a \<open>characters.new\<close> array
  contributes nothing.
\<close>

record 'c manifest =
  manifest_id :: string
  characters_new :: "'c list option"

definition pack_entries :: "(string \<Rightarrow> 'c \<Rightarrow> pool_entry option) \<Rightarrow> 'c manifest list \<Rightarrow>
    pool_entry list" where
  "pack_entries entry_of list =
     fold (\<lambda>m pool. case characters_new m of
                       None \<Rightarrow> pool
                     | Some new \<Rightarrow> pool @ List.map_filter (entry_of (manifest_id m)) new)
          list []"

text \<open>
  \<open>occurrences\<close> is a plain object: \<open>occurrences[mediaId]\<close> is truthy for a key
  that the filter has set and also for a property that every object inherits from
  \<open>Object.prototype\<close>. The keys that were set are kept as a list.
\<close>

definition inherited :: "string list" where
  "inherited = [''constructor'', ''__defineGetter__'', ''__defineSetter__'',
     ''hasOwnProperty'', ''__lookupGetter__'', ''__lookupSetter__'', ''isPrototypeOf'',
     ''propertyIsEnumerable'', ''toString'', ''valueOf'', ''__proto__'', ''toLocaleString'']"

definition wrong_stars :: "int option \<Rightarrow> pool_entry \<Rightarrow> bool" where
  "wrong_stars stars e = (case stars of None \<Rightarrow> False | Some s \<Rightarrow> entry_rating e \<noteq> s)"

fun filter_pool :: "int option \<Rightarrow> string list \<Rightarrow> pool_entry list \<Rightarrow> pool_entry list" where
  "filter_pool stars occurrences [] = []"
| "filter_pool stars occurrences (e # es) =
     (if wrong_stars stars e then filter_pool stars occurrences es
      else if mediaId e \<in> set inherited \<or> mediaId e \<in> set occurrences
           then filter_pool stars occurrences es
      else e # filter_pool stars (mediaId e # occurrences) es)"

text \<open>The list that \<open>pool\<close> shuffles: the cached part followed by the pack entries.\<close>

definition candidates :: "(string \<times> pool_range) list \<Rightarrow> pool_entry list \<Rightarrow> string \<Rightarrow>
    CharacterRole option \<Rightarrow> int option \<Rightarrow> pool_error + pool_entry list" where
  "candidates anilist packs key role stars =
     (case cached anilist key role stars of
        Inl e \<Rightarrow> Inl e
      | Inr pool \<Rightarrow> Inr (pool @ packs))"

text \<open>
  \<open>pool\<close> itself: the candidates are shuffled, then filtered. \<open>list\<close> is the result
  of \<open>packs.all\<close>, in the order in which the packs finish aggregating.
\<close>

definition pool :: "(nat \<Rightarrow> nat) \<Rightarrow> (string \<times> pool_range) list \<Rightarrow>
    (string \<Rightarrow> 'c \<Rightarrow> pool_entry option) \<Rightarrow> 'c manifest list \<Rightarrow> string \<Rightarrow>
    CharacterRole option \<Rightarrow> int option \<Rightarrow> pool_error + pool_entry list" where
  "pool rnd anilist entry_of list key role stars =
     (case candidates anilist (pack_entries entry_of list) key role stars of
        Inl e \<Rightarrow> Inl e
      | Inr all \<Rightarrow> Inr (filter_pool stars [] (shuffle rnd all)))"


section \<open>Rating calculator\<close>

text \<open>
  The class \<open>Rating\<close> (src/rating.ts) is not among the source files; only its tests
  (tests/gacha.test.ts) and its callers are. The four definitions of this section follow
  section 4.1 of the specification. The specification also says that the higher of the
  role-independent tier and the role-shifted tier is returned; for Background that
  contradicts the cap at tier 2, and the cap is the reading taken here, since the test
  \<open>rating\<close> expects a Background character of popularity 1000000 to stay below the
  popularity tier. For Main and Supporting the two readings agree. The thresholds are
  those of the specification; the test expects other stars at several of its inputs
  (1 star for Main at popularity 0, 2 stars at popularity 199999 without a role), so the
  rows of the test are kept beside the model, at the end of this section.
\<close>

text \<open>
  Modelled from the spec: the role-independent bracket of the popularity, which
  src/rating.ts would compute: \<open>< 5000\<close> is 1, \<open>< 59999\<close> is 2, \<open>< 199999\<close> is 3,
  \<open>< 399999\<close> is 4, otherwise 5; an absent popularity is tier 1.
\<close>

definition popularity_tier :: "int option \<Rightarrow> int" where
  "popularity_tier popularity =
     (case popularity of
        None \<Rightarrow> 1
      | Some p \<Rightarrow> if p < 5000 then 1 else if p < 59999 then 2
                  else if p < 199999 then 3 else if p < 399999 then 4 else 5)"

text \<open>
  Modelled from the spec: the shift of the role, missing with src/rating.ts. Background
  never exceeds tier 2, Main adds one tier step and is capped at 5, Supporting leaves
  the bracket as it is.
\<close>

fun role_tier :: "CharacterRole \<Rightarrow> int \<Rightarrow> int" where
  "role_tier Background tier = min tier 2"
| "role_tier Main tier = min (tier + 1) 5"
| "role_tier Supporting tier = tier"

text \<open>
  Modelled from the spec: the result of src/rating.ts never exceeds 5 and never goes
  below 1.
\<close>

definition clamp_stars :: "int \<Rightarrow> int" where
  "clamp_stars n = max 1 (min 5 n)"

text \<open>
  Modelled from the spec: the stars of \<open>new Rating({ stars, role, popularity })\<close>
  (src/rating.ts is missing). A fixed star value is returned directly, clamped; without
  a role the result is the bracket of the popularity; with a role it is the bracket
  shifted by the role.
\<close>

definition stars_of :: "int option \<Rightarrow> CharacterRole option \<Rightarrow> int option \<Rightarrow> int" where
  "stars_of fixed role popularity =
     (case fixed of
        Some s \<Rightarrow> clamp_stars s
      | None \<Rightarrow>
          (case role of
             None \<Rightarrow> clamp_stars (popularity_tier popularity)
           | Some r \<Rightarrow> clamp_stars (role_tier r (popularity_tier popularity))))"









section \<open>Inputs used to exercise the definitions\<close>

text \<open>
  The inputs of the \<open>auto merge\<close> tests of tests/merge.test.ts:
  \<open>Array(n).fill({}).map((_, i) => ({ value: { rating, id: `id:${i}` } }))\<close>,
  with \<open>decimal\<close> writing an index below 100 in decimal digits.
\<close>

definition digit :: "nat \<Rightarrow> char" where
  "digit d = ''0123456789'' ! d"

definition decimal :: "nat \<Rightarrow> string" where
  "decimal i = (if i < 10 then [digit i] else [digit (i div 10), digit (i mod 10)])"

definition rated :: "int \<Rightarrow> nat \<Rightarrow> character list" where
  "rated r n = map (\<lambda>i. \<lparr>char_id = ''id:'' @ decimal i, rating = r\<rparr>) [0..<n]"

definition fours_and_five :: "character list" where
  "fours_and_five = rated 4 4 @ [\<lparr>char_id = ''id:4'', rating = 5\<rparr>]"

text \<open>
  A random source whose every draw is 0, so that each iteration of \<open>shuffle\<close>
  exchanges \<open>array[i]\<close> with \<open>array[0]\<close>.
\<close>

definition always_first :: "nat \<Rightarrow> nat" where
  "always_first i = 0"

text \<open>
  \<open>gacha.variables.roles\<close> as tests/gacha.test.ts gives it,
  \<open>{ 10: Main, 70: Supporting, 20: Background }\<close>, in the order in which
  \<open>Object.keys\<close> lists integer keys (ascending); and a table with a negative key,
  \<open>{ 105: 'a', '-5': 'b' }\<close>.
\<close>

definition roles_table :: "(int \<times> CharacterRole) list" where
  "roles_table = [(10, Main), (20, Background), (70, Supporting)]"

definition negative_table :: "(int \<times> string) list" where
  "negative_table = [(105, ''a''), (- 5, ''b'')]"

text \<open>
  A cache with two popularity ranges, and one pack with a character that has media and
  one that has none. The entries \<open>anilist:1\<close> and \<open>anilist:2\<close> belong to the same
  media. A pack character is given here as the entry it resolves to.
\<close>

definition entry :: "string \<Rightarrow> string \<Rightarrow> int \<Rightarrow> pool_entry" where
  "entry i m r = \<lparr>entry_id = i, mediaId = m, entry_rating = r\<rparr>"

definition pool_cache :: "(string \<times> pool_range) list" where
  "pool_cache =
     [(''[1000,50000]'',
       \<lparr>ALL_bucket = [entry ''anilist:1'' ''anilist:10'' 1, entry ''anilist:2'' ''anilist:10'' 1],
        MAIN_bucket = [entry ''anilist:1'' ''anilist:10'' 1],
        SUPPORTING_bucket = [entry ''anilist:2'' ''anilist:10'' 1],
        BACKGROUND_bucket = []\<rparr>),
      (''[50000,100000]'',
       \<lparr>ALL_bucket = [entry ''anilist:3'' ''anilist:30'' 1],
        MAIN_bucket = [],
        SUPPORTING_bucket = [entry ''anilist:3'' ''anilist:30'' 1],
        BACKGROUND_bucket = []\<rparr>)]"

definition given_entry :: "string \<Rightarrow> pool_entry option \<Rightarrow> pool_entry option" where
  "given_entry pack c = c"

definition one_pack :: "pool_entry option manifest list" where
  "one_pack =
     [\<lparr>manifest_id = ''pack'',
       characters_new = Some [Some (entry ''pack:1'' ''pack:7'' 2), None]\<rparr>]"

section \<open>Definitions used in the proofs about the tiers\<close>

text \<open>
  What the tiers can draw on: the characters whose \<open>split\<close> key is at most \<open>k\<close>,
  as a multiset. \<open>tiers_inv\<close> is the invariant of the loop over the tiers before
  the iteration for tier \<open>i\<close>.
\<close>

definition avail :: "character list \<Rightarrow> int \<Rightarrow> character multiset" where
  "avail cs k = filter_mset (\<lambda>c. split_key c \<le> k) (mset cs)"

definition tiers_inv :: "character list \<Rightarrow> int \<Rightarrow> (int \<Rightarrow> character list list) \<Rightarrow> bool" where
  "tiers_inv cs i P \<longleftrightarrow>
     (\<forall>k. mset (concat (P k)) \<subseteq># avail cs k) \<and>
     (\<forall>k\<ge>i. P k = []) \<and>
     (\<forall>g\<in>set (P 1). length g = 1)"


section \<open>Properties of the sacrifice grouper\<close>

subsection \<open>Chunks and the fold of one tier into the next\<close>

lemma chunks_Nil: "chunks [] n = []"
  by (simp add: chunks.simps)

lemma chunks_Cons:
  "0 < n \<Longrightarrow> chunks (x # xs) n = take n (x # xs) # chunks (drop n (x # xs)) n"
  by (subst chunks.simps) simp

lemma concat_chunks: "0 < n \<Longrightarrow> concat (chunks xs n) = xs"
proof (induction xs n rule: chunks.induct)
  case (1 xs n)
  then show ?case by (subst chunks.simps) auto
qed

lemma mset_concat_take: "mset (concat (take k xss)) \<subseteq># mset (concat xss)"
proof -
  have "concat xss = concat (take k xss) @ concat (drop k xss)"
    by (metis append_take_drop_id concat_append)
  then have "mset (concat xss) = mset (concat (take k xss)) + mset (concat (drop k xss))"
    by (metis mset_append)
  then show ?thesis by simp
qed

lemma concat_map_concat: "concat (map concat xsss) = concat (concat xsss)"
  by (induction xsss) auto

lemma concat_take_concat: "\<exists>j. concat (take k xsss) = take j (concat xsss)"
proof (induction xsss arbitrary: k)
  case Nil
  then show ?case by simp
next
  case (Cons xs xsss)
  show ?case
  proof (cases k)
    case 0
    then show ?thesis by (intro exI[of _ 0]) simp
  next
    case (Suc k')
    from Cons.IH[of k'] obtain j where "concat (take k' xsss) = take j (concat xsss)" ..
    then show ?thesis using Suc by (intro exI[of _ "length xs + j"]) simp
  qed
qed

lemma mset_fold_previous: "mset (concat (fold_previous prev)) \<subseteq># mset (concat prev)"
proof -
  obtain j where
    "concat (take (length prev div 5) (chunks prev 5)) = take j (concat (chunks prev 5))"
    using concat_take_concat by blast
  then have "concat (fold_previous prev) = concat (take j prev)"
    by (simp add: fold_previous_def concat_map_concat concat_chunks)
  then show ?thesis by (simp add: mset_concat_take)
qed

lemma concat_singles: "concat (map (\<lambda>c. [c]) xs) = xs"
  by (induction xs) auto

lemma mset_member_concat: "g \<in> set gs \<Longrightarrow> mset g \<subseteq># mset (concat gs)"
  by (induction gs) (auto intro: subset_mset.order_trans)

lemma distinct_sub_mset:
  assumes "mset xs \<subseteq># mset ys" and "distinct ys"
  shows "distinct xs"
proof -
  have "count (mset xs) a \<le> 1" for a
  proof -
    have "count (mset ys) a \<le> 1"
      using assms(2) by (simp add: distinct_count_atmost_1)
    with mset_subset_eq_count[OF assms(1), of a] show ?thesis by simp
  qed
  then show ?thesis
    unfolding distinct_count_atmost_1
    by (metis count_mset_0_iff le_antisym nat_le_linear not_one_le_zero One_nat_def
        Suc_leI neq0_conv)
qed

subsection \<open>The buckets\<close>

lemma split_push_filter:
  "split_push xs sp = Inr sp' \<Longrightarrow> sp' k = sp k @ filter (\<lambda>c. split_key c = k) xs"
  by (induction xs arbitrary: sp) (auto split: if_splits)

lemma split_push_uniform:
  "\<forall>c\<in>set cs. split_key c = k \<Longrightarrow> has_key k \<Longrightarrow>
   split_push cs sp = Inr (sp(k := sp k @ cs))"
  by (induction cs arbitrary: sp) auto

lemma sort_key_const: "\<forall>x\<in>set xs. f x = k \<Longrightarrow> sort_key f xs = xs"
  by (induction xs) (auto simp: insort_is_Cons)

lemma ones_split:
  assumes "\<forall>c\<in>set cs. rating c = 1"
  shows "split_push (sort_key rating cs) (\<lambda>k. []) = Inr ((\<lambda>k. [])(1 := cs))"
proof -
  have "sort_key rating cs = cs" using assms by (rule sort_key_const)
  moreover have "\<forall>c\<in>set cs. split_key c = 1" using assms by (simp add: split_key_def)
  ultimately show ?thesis
    using split_push_uniform[of cs 1 "\<lambda>k. []"] by (simp add: has_key_def)
qed

subsection \<open>The invariant of the loop over the tiers\<close>

lemma avail_step:
  "avail cs (i - 1) + filter_mset (\<lambda>c. split_key c = i) (mset cs) \<subseteq># avail cs i"
  by (auto simp: avail_def subseteq_mset_def)

lemma avail_single: "filter_mset (\<lambda>c. split_key c = i) (mset cs) \<subseteq># avail cs i"
  by (auto simp: avail_def subseteq_mset_def)

lemma tier_body_inv:
  assumes sp: "\<And>k. split k = filter (\<lambda>c. split_key c = k) xs" and xs: "mset xs = mset cs"
    and inv: "tiers_inv cs i P"
  shows "tiers_inv cs (i + 1) (tier_body split i P)"
proof -
  have Pi: "P i = []" using inv by (simp add: tiers_inv_def)
  have bound: "\<And>k. mset (concat (P k)) \<subseteq># avail cs k"
    using inv by (simp add: tiers_inv_def)
  have spi: "mset (split i) = filter_mset (\<lambda>c. split_key c = i) (mset cs)"
    by (simp add: sp xs[symmetric])
  have new: "mset (concat (tier_body split i P i)) \<subseteq># avail cs i"
  proof (cases "i > 1")
    case True
    have "mset (concat (fold_previous (P (i - 1)))) \<subseteq># avail cs (i - 1)"
      using mset_fold_previous bound by (rule subset_mset.order_trans)
    then have "mset (concat (fold_previous (P (i - 1)))) + mset (split i) \<subseteq># avail cs i"
      using avail_step[of cs i] spi
      by (metis subset_mset.add_right_mono subset_mset.order_trans)
    then show ?thesis using True by (simp add: tier_body_def Pi concat_singles)
  next
    case False
    then show ?thesis by (simp add: tier_body_def Pi concat_singles spi avail_single)
  qed
  have other: "\<And>k. k \<noteq> i \<Longrightarrow> tier_body split i P k = P k"
    by (simp add: tier_body_def Let_def)
  have a: "\<forall>k. mset (concat (tier_body split i P k)) \<subseteq># avail cs k"
    using new other bound by metis
  have b: "\<forall>k\<ge>i + 1. tier_body split i P k = []"
    using other inv by (simp add: tiers_inv_def)
  have c: "\<forall>g\<in>set (tier_body split i P 1). length g = 1"
  proof (cases "i = 1")
    case True
    then show ?thesis using Pi by (auto simp: tier_body_def)
  next
    case False
    then show ?thesis using other[of 1] inv by (simp add: tiers_inv_def)
  qed
  show ?thesis using a b c by (simp add: tiers_inv_def)
qed

lemma tiers_inv_mono: "tiers_inv cs i P \<Longrightarrow> tiers_inv cs (i + 1) P"
  by (simp add: tiers_inv_def)

lemma tier_step_inv:
  assumes sp: "\<And>k. split k = filter (\<lambda>c. split_key c = k) xs" and xs: "mset xs = mset cs"
    and inv: "tiers_inv cs i P" and step: "tier_step target split i P = Inr P'"
  shows "tiers_inv cs (i + 1) P'"
  using step tier_body_inv[OF sp xs inv] tiers_inv_mono[OF inv]
  by (auto simp: tier_step_def split: option.splits if_splits)

lemma tiers_loop_inv:
  assumes sp: "\<And>k. split k = filter (\<lambda>c. split_key c = k) xs" and xs: "mset xs = mset cs"
    and loop: "tiers_loop target split [1, 2, 3, 4, 5] (\<lambda>k. []) = Inr P"
  shows "tiers_inv cs 6 P"
proof -
  have i0: "tiers_inv cs 1 (\<lambda>k. [])" by (simp add: tiers_inv_def)
  from loop obtain P1 P2 P3 P4 where
    s1: "tier_step target split 1 (\<lambda>k. []) = Inr P1" and
    s2: "tier_step target split 2 P1 = Inr P2" and
    s3: "tier_step target split 3 P2 = Inr P3" and
    s4: "tier_step target split 4 P3 = Inr P4" and
    s5: "tier_step target split 5 P4 = Inr P"
    by (auto split: sum.splits)
  have "tiers_inv cs 2 P1" using tier_step_inv[OF sp xs i0 s1] by simp
  then have "tiers_inv cs 3 P2" using tier_step_inv[OF sp xs _ s2] by fastforce
  then have "tiers_inv cs 4 P3" using tier_step_inv[OF sp xs _ s3] by fastforce
  then have "tiers_inv cs 5 P4" using tier_step_inv[OF sp xs _ s4] by fastforce
  then show "tiers_inv cs 6 P" using tier_step_inv[OF sp xs _ s5] by fastforce
qed

lemma findIndex_Some: "findIndex Q xs = Some i \<Longrightarrow> i < length xs \<and> Q (xs ! i)"
  by (induction xs arbitrary: i) (auto split: if_splits)

lemma select_Inr:
  assumes "select P t = Inr (g, r)"
  shows "has_key r \<and> g \<in> set (P r) \<and> 5 \<le> length g"
  using assms
  by (auto simp: select_def enough_def split: option.splits if_splits dest!: findIndex_Some)

subsection \<open>The inputs of the tests, for any characters of those ratings\<close>

lemma list25:
  assumes "length cs = 25"
  obtains a0 a1 a2 a3 a4 a5 a6 a7 a8 a9 b0 b1 b2 b3 b4 b5 b6 b7 b8 b9 d0 d1 d2 d3 d4
  where "cs = [a0, a1, a2, a3, a4, a5, a6, a7, a8, a9, b0, b1, b2, b3, b4, b5, b6, b7, b8, b9,
               d0, d1, d2, d3, d4]"
  using assms by (auto simp add: numeral_eq_Suc length_Suc_conv)

lemma list5:
  assumes "length cs = 5"
  obtains a0 a1 a2 a3 a4 where "cs = [a0, a1, a2, a3, a4]"
  using assms by (auto simp add: numeral_eq_Suc length_Suc_conv)

lemmas tier_eval = tier_step_def tier_body_def has_key_def fold_previous_def chunks_Cons
  chunks_Nil select_def enough_def scan_def

lemma ones25:
  assumes "length cs = 25" and "\<forall>c\<in>set cs. rating c = 1"
  shows "getSacrifices cs ModeTarget (Some 3) = Inr (cs, 3)"
    and "getSacrifices cs ModeTarget (Some 4) = Inl (MergeInsufficient 1 4)"
    and "getSacrifices cs ModeMin None = Inr (take 5 cs, 2)"
    and "getSacrifices cs ModeMax None = Inr (cs, 3)"
proof -
  from assms(1) obtain a0 a1 a2 a3 a4 a5 a6 a7 a8 a9 b0 b1 b2 b3 b4 b5 b6 b7 b8 b9
      d0 d1 d2 d3 d4
    where cs: "cs = [a0, a1, a2, a3, a4, a5, a6, a7, a8, a9, b0, b1, b2, b3, b4, b5, b6, b7,
                     b8, b9, d0, d1, d2, d3, d4]"
    by (rule list25)
  show "getSacrifices cs ModeTarget (Some 3) = Inr (cs, 3)"
    unfolding getSacrifices_def ones_split[OF assms(2)] unfolding cs
    by (simp add: tier_eval)
  show "getSacrifices cs ModeTarget (Some 4) = Inl (MergeInsufficient 1 4)"
    unfolding getSacrifices_def ones_split[OF assms(2)] unfolding cs
    by (simp add: tier_eval)
  show "getSacrifices cs ModeMin None = Inr (take 5 cs, 2)"
    unfolding getSacrifices_def ones_split[OF assms(2)] unfolding cs
    by (simp add: tier_eval)
  show "getSacrifices cs ModeMax None = Inr (cs, 3)"
    unfolding getSacrifices_def ones_split[OF assms(2)] unfolding cs
    by (simp add: tier_eval)
qed

lemma rated_ones: "length (rated 1 25) = 25 \<and> (\<forall>c\<in>set (rated 1 25). rating c = 1)"
  by (simp add: rated_def)

lemma rated_ratings: "map rating (rated r n) = replicate n r"
  by (simp add: rated_def comp_def map_replicate_const)

lemma fours_five:
  assumes "mset (map rating cs) = {#4, 4, 4, 4, 5#}"
  shows "getSacrifices cs ModeTarget (Some 5) = Inr (sort_key rating cs, 5)"
proof -
  have "size (mset (map rating cs)) = 5" unfolding assms by simp
  then have len: "length (sort_key rating cs) = 5" by simp
  have "set (map rating cs) = {4, 5}"
    using arg_cong[OF assms, of set_mset] by simp
  then have "\<forall>c\<in>set cs. rating c = 4 \<or> rating c = 5" by auto
  then have "\<forall>c\<in>set (sort_key rating cs). split_key c = 4" by (auto simp: split_key_def)
  then have sp: "split_push (sort_key rating cs) (\<lambda>k. []) =
      Inr ((\<lambda>k. [])(4 := sort_key rating cs))"
    using split_push_uniform[of "sort_key rating cs" 4 "\<lambda>k. []"] by (simp add: has_key_def)
  from len obtain a0 a1 a2 a3 a4 where s: "sort_key rating cs = [a0, a1, a2, a3, a4]"
    by (rule list5)
  show ?thesis
    unfolding getSacrifices_def sp unfolding s
    by (simp add: tier_eval)
qed

lemma rated_fours_and_five: "mset (map rating fours_and_five) = {#4, 4, 4, 4, 5#}"
  by (simp add: fours_and_five_def rated_def upt_rec del: mset_upt)

lemma distinct_rated_ones: "distinct (rated 1 25)"
  by (simp add: rated_def upt_rec decimal_def digit_def)

subsection \<open>The claims about \<open>getSacrifices\<close>\<close>

text \<open>
  Claim C1, as the code has it. For any 25 characters that are all rated 1, mode
  \<open>target\<close> with target 3 does not fail: the five groups of five at tier 2 fold into
  one group of 25 at tier 3, and \<open>getSacrifices\<close> returns all 25 characters with the
  resolved target 3. The error \<open>merge-insufficient\<close>, which carries the number of
  possibilities at tier \<open>target - 1\<close>, is what the same characters give for target 4:
  there is one possibility at tier 3.
\<close>

theorem target_of_25_ones:
  assumes "length cs = 25" and "\<forall>c\<in>set cs. rating c = 1"
  shows "getSacrifices cs ModeTarget (Some 3) = Inr (cs, 3) \<and>
         getSacrifices cs ModeTarget (Some 4) = Inl (MergeInsufficient 1 4)"
  using ones25(1,2)[OF assms] by simp

theorem target_of_25_ones_witness:
  "length (rated 1 25) = 25 \<and> map rating (rated 1 25) = replicate 25 1 \<and>
   getSacrifices (rated 1 25) ModeTarget (Some 3) = Inr (rated 1 25, 3) \<and>
   getSacrifices (rated 1 25) ModeTarget (Some 4) = Inl (MergeInsufficient 1 4)"
  using target_of_25_ones[of "rated 1 25"] rated_ones by (simp add: rated_ratings)

text \<open>
  Claim C1, as it is stated, fails on the input of the test \<open>25 ones\<close>: the call
  returns a group and raises no error.
\<close>

theorem target_3_of_25_ones_returns:
  "getSacrifices (rated 1 25) ModeTarget (Some 3) = Inr (rated 1 25, 3)"
  using ones25(1)[of "rated 1 25"] rated_ones by simp

text \<open>
  Claim C5. For any 25 characters that are all rated 1, mode \<open>min\<close> resolves the target
  2 and returns five of them (the first five), and mode \<open>max\<close> resolves the target 3 and
  returns all 25.
\<close>

theorem min_max_of_25_ones:
  assumes "length cs = 25" and "\<forall>c\<in>set cs. rating c = 1"
  shows "getSacrifices cs ModeMin None = Inr (take 5 cs, 2) \<and>
         length (take 5 cs) = 5 \<and> (\<forall>c\<in>set (take 5 cs). rating c = 1) \<and>
         getSacrifices cs ModeMax None = Inr (cs, 3)"
proof -
  have "\<forall>c\<in>set (take 5 cs). rating c = 1"
    using assms(2) by (meson in_set_takeD)
  then show ?thesis using ones25(3,4)[OF assms] assms(1) by simp
qed

theorem min_max_of_25_ones_witness:
  "length (rated 1 25) = 25 \<and> map rating (rated 1 25) = replicate 25 1 \<and>
   getSacrifices (rated 1 25) ModeMin None = Inr (take 5 (rated 1 25), 2) \<and>
   length (take 5 (rated 1 25)) = 5 \<and>
   getSacrifices (rated 1 25) ModeMax None = Inr (rated 1 25, 3)"
  using min_max_of_25_ones[of "rated 1 25"] rated_ones by (simp add: rated_ratings)

text \<open>
  Claim C6. For any collection of four characters rated 4 and one character rated 5, in
  any order, mode \<open>target\<close> with target 5 returns exactly these five characters (in the
  order of the sorted copy, so the one rated 5 comes last) and resolves the target 5: the
  character rated 5 is in the bucket of tier 4.
\<close>

theorem four_fours_and_a_five:
  assumes "mset (map rating cs) = {#4, 4, 4, 4, 5#}"
  shows "getSacrifices cs ModeTarget (Some 5) = Inr (sort_key rating cs, 5) \<and>
         mset (sort_key rating cs) = mset cs \<and> length cs = 5"
proof -
  have "size (mset (map rating cs)) = 5" unfolding assms by simp
  then show ?thesis using fours_five[OF assms] by simp
qed

theorem four_fours_and_a_five_witness:
  "mset (map rating fours_and_five) = {#4, 4, 4, 4, 5#} \<and>
   getSacrifices fours_and_five ModeTarget (Some 5) = Inr (sort_key rating fours_and_five, 5) \<and>
   mset (sort_key rating fours_and_five) = mset fours_and_five"
  using four_fours_and_a_five[of fours_and_five] rated_fours_and_five by simp

text \<open>
  Claim C9. Whenever \<open>getSacrifices\<close> returns, the returned list has at least five
  elements, it takes every character at most as often as the input collection holds it
  (so nothing is invented or used twice, and the list is free of repetitions when the
  input is), and the resolved target is one of 2, 3, 4, 5. The function reads its
  argument only through the sorted copy, so the argument is the same before and after:
  in the model it is a value that nothing can write to.
\<close>

theorem getSacrifices_returns:
  assumes "getSacrifices characters mode target = Inr (sacrifices, resolved)"
  shows "5 \<le> length sacrifices \<and> mset sacrifices \<subseteq># mset characters \<and>
         set sacrifices \<subseteq> set characters \<and> (distinct characters \<longrightarrow> distinct sacrifices) \<and>
         resolved \<in> {2, 3, 4, 5}"
proof -
  from assms obtain split P where
    sp: "split_push (sort_key rating characters) (\<lambda>k. []) = Inr split" and
    loop: "tiers_loop target split [1, 2, 3, 4, 5] (\<lambda>k. []) = Inr P" and
    sel: "select P (resolve mode P target) = Inr (sacrifices, resolved)"
    by (auto simp: getSacrifices_def split: sum.splits)
  have spk: "\<And>k. split k = filter (\<lambda>c. split_key c = k) (sort_key rating characters)"
    using split_push_filter[OF sp] by simp
  have inv: "tiers_inv characters 6 P"
    using tiers_loop_inv[OF spk _ loop] by simp
  from select_Inr[OF sel] have key: "has_key resolved"
    and mem: "sacrifices \<in> set (P resolved)" and len: "5 \<le> length sacrifices"
    by simp_all
  have "resolved \<noteq> 1" using inv mem len by (auto simp: tiers_inv_def)
  then have range: "resolved \<in> {2, 3, 4, 5}" using key by (auto simp: has_key_def)
  have "mset sacrifices \<subseteq># mset (concat (P resolved))"
    using mem by (rule mset_member_concat)
  moreover have "mset (concat (P resolved)) \<subseteq># avail characters resolved"
    using inv by (simp add: tiers_inv_def)
  moreover have "avail characters resolved \<subseteq># mset characters"
    by (simp add: avail_def)
  ultimately have sub: "mset sacrifices \<subseteq># mset characters"
    by (meson subset_mset.order_trans)
  have "set sacrifices \<subseteq> set characters"
    using set_mset_mono[OF sub] by simp
  then show ?thesis using len sub range distinct_sub_mset[OF sub] by simp
qed

theorem getSacrifices_returns_witness:
  "getSacrifices (rated 1 25) ModeMin None = Inr (take 5 (rated 1 25), 2) \<and>
   distinct (rated 1 25) \<and>
   5 \<le> length (take 5 (rated 1 25)) \<and> mset (take 5 (rated 1 25)) \<subseteq># mset (rated 1 25) \<and>
   distinct (take 5 (rated 1 25)) \<and> (2::int) \<in> {2, 3, 4, 5}"
proof -
  have r: "getSacrifices (rated 1 25) ModeMin None = Inr (take 5 (rated 1 25), 2)"
    using ones25(3)[of "rated 1 25"] rated_ones by simp
  show ?thesis
    using getSacrifices_returns[OF r] r distinct_rated_ones by simp
qed


section \<open>Properties of the shuffle and of the weighted sampler\<close>

lemma length_exchange: "length (exchange i s a) = length a"
  by (simp add: exchange_def Let_def)

lemma mset_exchange: "i < length a \<Longrightarrow> s < length a \<Longrightarrow> mset (exchange i s a) = mset a"
  by (simp add: exchange_def Let_def mset_swap)

lemma fold_exchange:
  "\<forall>i\<in>set ns. i < length a \<Longrightarrow>
   length (fold (\<lambda>i a. exchange i (rnd i mod (i + 1)) a) ns a) = length a \<and>
   mset (fold (\<lambda>i a. exchange i (rnd i mod (i + 1)) a) ns a) = mset a"
proof (induction ns arbitrary: a)
  case Nil
  then show ?case by simp
next
  case (Cons n ns)
  have n: "n < length a" using Cons.prems by simp
  have "rnd n mod (n + 1) < n + 1" by simp
  then have s: "rnd n mod (n + 1) < length a" using n by linarith
  have "\<forall>i\<in>set ns. i < length (exchange n (rnd n mod (n + 1)) a)"
    using Cons.prems by (simp add: length_exchange)
  from Cons.IH[OF this] show ?case
    using mset_exchange[OF n s] by (simp add: length_exchange)
qed

lemma length_shuffle: "length (shuffle rnd a) = length a"
  using fold_exchange[of "[0..<length a]" a rnd] by (simp add: shuffle_def)

lemma mset_shuffle: "mset (shuffle rnd a) = mset a"
  using fold_exchange[of "[0..<length a]" a rnd] by (simp add: shuffle_def)

lemma set_shuffle: "set (shuffle rnd a) = set a"
  using mset_shuffle by (metis set_mset_mset)

lemma set_flat_array:
  "k \<in> set (flat_array chances) \<Longrightarrow> k < length chances \<and> 0 < chances ! k"
  by (auto simp: flat_array_def)

lemma length_concat_upt: "length (concat (map f [0..<n])) = (\<Sum>i<n. length (f i))"
  by (induction n) simp_all

lemma sum_nth: "(\<Sum>i<length xs. f (xs ! i)) = sum_list (map f xs)"
proof -
  have "sum_list (map f xs) = (\<Sum>i = 0..<length (map f xs). map f xs ! i)"
    by (rule sum_list_sum_nth)
  also have "\<dots> = (\<Sum>i<length xs. f (xs ! i))"
    by (simp add: atLeast0LessThan)
  finally show ?thesis by simp
qed

lemma length_flat_array: "length (flat_array chances) = sum_list (map nat chances)"
  using sum_nth[of nat chances] by (simp add: flat_array_def length_concat_upt)

lemma sum_list_nat_ge: "nat (sum_list xs) \<le> sum_list (map nat xs)"
  by (induction xs) auto

lemma sum_list_nat_eq: "\<forall>x\<in>set xs. 0 \<le> x \<Longrightarrow> sum_list (map nat xs) = nat (sum_list xs)"
  by (induction xs) (auto simp: nat_add_distrib sum_list_nonneg)

lemma foldl_plus: "foldl (+) (c::int) rest = c + sum_list rest"
  by (induction rest arbitrary: c) auto

lemma rng_throws: "isl (rng rnd dict) \<longleftrightarrow> sum_list (map fst dict) \<noteq> 100"
  by (cases dict) (auto simp: rng_def Let_def foldl_plus)

lemma rng_nonempty:
  "dict \<noteq> [] \<Longrightarrow> rng rnd dict =
     (if sum_list (map fst dict) \<noteq> 100 then Inl (SumIsNot100 (sum_list (map fst dict)))
      else Inr \<lparr>value = at_index (map snd dict)
                    (at_index (shuffle rnd (flat_array (map fst dict))) (Some 0)),
                chance = at_index (map fst dict)
                    (at_index (shuffle rnd (flat_array (map fst dict))) (Some 0))\<rparr>)"
  by (cases dict) (simp_all add: rng_def Let_def foldl_plus)

lemma rng_returns:
  assumes "sum_list (map fst dict) = 100"
  shows "\<exists>k<length dict.
    at_index (shuffle rnd (flat_array (map fst dict))) (Some 0) = Some k \<and>
    0 < fst (dict ! k) \<and>
    rng rnd dict = Inr \<lparr>value = Some (snd (dict ! k)), chance = Some (fst (dict ! k))\<rparr>"
proof -
  let ?flat = "flat_array (map fst dict)"
  have "100 \<le> length ?flat"
    using sum_list_nat_ge[of "map fst dict"] assms by (simp add: length_flat_array)
  then have "0 < length ?flat" by linarith
  then have len: "0 < length (shuffle rnd ?flat)" by (simp only: length_shuffle)
  then have "shuffle rnd ?flat ! 0 \<in> set ?flat"
    using set_shuffle[of rnd ?flat] nth_mem by blast
  then have k: "shuffle rnd ?flat ! 0 < length dict"
    and pos: "0 < fst (dict ! (shuffle rnd ?flat ! 0))"
    using set_flat_array[of "shuffle rnd ?flat ! 0" "map fst dict"] by auto
  have ne: "dict \<noteq> []" using assms by auto
  have "rng rnd dict = Inr \<lparr>value = Some (snd (dict ! (shuffle rnd ?flat ! 0))),
      chance = Some (fst (dict ! (shuffle rnd ?flat ! 0)))\<rparr>"
    using assms len k by (simp add: rng_nonempty[OF ne] at_index_def)
  moreover have "at_index (shuffle rnd ?flat) (Some 0) = Some (shuffle rnd ?flat ! 0)"
    using len by (simp add: at_index_def)
  ultimately show ?thesis using k pos by simp
qed

lemma roles_table_sum: "sum_list (map fst roles_table) = 100"
  by (simp add: roles_table_def)

lemma negative_table_sum: "sum_list (map fst negative_table) = 100"
  by (simp add: negative_table_def)

text \<open>
  Claim C4. \<open>rng\<close> throws if and only if the chances do not sum to 100: the \<open>Error\<close>
  with the sum in its message for a table with entries, and the \<open>TypeError\<close> of
  \<open>reduce\<close> for the table without entries (whose chances do not sum to 100 either).
  When the sum is 100 it returns, and what it returns is an entry of the table.
\<close>

theorem rng_throws_iff_sum_not_100:
  "(isl (rng rnd dict) \<longleftrightarrow> sum_list (map fst dict) \<noteq> 100) \<and>
   (dict \<noteq> [] \<and> sum_list (map fst dict) \<noteq> 100 \<longrightarrow>
      rng rnd dict = Inl (SumIsNot100 (sum_list (map fst dict)))) \<and>
   (dict = [] \<longrightarrow> rng rnd dict = Inl ReduceOfEmptyArray) \<and>
   (sum_list (map fst dict) = 100 \<longrightarrow>
      (\<exists>c v. rng rnd dict = Inr \<lparr>value = Some v, chance = Some c\<rparr> \<and> (c, v) \<in> set dict))"
proof -
  have a: "isl (rng rnd dict) \<longleftrightarrow> sum_list (map fst dict) \<noteq> 100" by (rule rng_throws)
  have b: "rng rnd dict = Inl (SumIsNot100 (sum_list (map fst dict)))"
    if "dict \<noteq> []" and "sum_list (map fst dict) \<noteq> 100"
    using that by (simp add: rng_nonempty)
  have c: "rng rnd dict = Inl ReduceOfEmptyArray" if "dict = []"
    using that by (simp add: rng_def)
  have d: "\<exists>c v. rng rnd dict = Inr \<lparr>value = Some v, chance = Some c\<rparr> \<and> (c, v) \<in> set dict"
    if "sum_list (map fst dict) = 100"
  proof -
    from rng_returns[OF that, of rnd] obtain k where "k < length dict"
      and "rng rnd dict = Inr \<lparr>value = Some (snd (dict ! k)), chance = Some (fst (dict ! k))\<rparr>"
      by blast
    moreover from this(1) have "(fst (dict ! k), snd (dict ! k)) \<in> set dict" by simp
    ultimately show ?thesis by blast
  qed
  show ?thesis using a b c d by blast
qed

theorem rng_throws_iff_sum_not_100_witness:
  "sum_list (map fst roles_table) = 100 \<and> \<not> isl (rng always_first roles_table) \<and>
   (\<exists>c v. rng always_first roles_table = Inr \<lparr>value = Some v, chance = Some c\<rparr> \<and>
          (c, v) \<in> set roles_table) \<and>
   sum_list (map fst (tl roles_table)) \<noteq> 100 \<and> tl roles_table \<noteq> [] \<and>
   rng always_first (tl roles_table) = Inl (SumIsNot100 90) \<and>
   rng always_first ([] :: (int \<times> CharacterRole) list) = Inl ReduceOfEmptyArray"
  using rng_throws_iff_sum_not_100[of always_first roles_table]
    rng_throws_iff_sum_not_100[of always_first "tl roles_table"]
    rng_throws_iff_sum_not_100[of always_first "[] :: (int \<times> CharacterRole) list"]
    roles_table_sum
  by (simp add: roles_table_def)

text \<open>
  Claim C10, as the code has it. Whenever the chances sum to 100, the flat array holds
  at least 100 indices, and exactly 100 when no chance is negative (a negative chance
  pushes nothing, so the others make up more than 100). The shuffle keeps the length, so
  the read of the first element is defined; the index read there is an index of the
  table whose chance is positive, and the result is the chance and the value of that
  entry.
\<close>

theorem rng_reads_in_bounds:
  assumes "sum_list (map fst dict) = 100"
  shows "100 \<le> length (shuffle rnd (flat_array (map fst dict))) \<and>
         ((\<forall>c\<in>set (map fst dict). 0 \<le> c) \<longrightarrow>
            length (shuffle rnd (flat_array (map fst dict))) = 100) \<and>
         (\<exists>k<length dict.
            at_index (shuffle rnd (flat_array (map fst dict))) (Some 0) = Some k \<and>
            0 < fst (dict ! k) \<and> dict ! k \<in> set dict \<and>
            rng rnd dict = Inr \<lparr>value = Some (snd (dict ! k)), chance = Some (fst (dict ! k))\<rparr>)"
proof -
  have "100 \<le> length (flat_array (map fst dict))"
    using sum_list_nat_ge[of "map fst dict"] assms by (simp add: length_flat_array)
  moreover have "length (flat_array (map fst dict)) = 100"
    if "\<forall>c\<in>set (map fst dict). 0 \<le> c"
    using sum_list_nat_eq[OF that] assms by (simp add: length_flat_array)
  moreover from rng_returns[OF assms, of rnd] have "\<exists>k<length dict.
      at_index (shuffle rnd (flat_array (map fst dict))) (Some 0) = Some k \<and>
      0 < fst (dict ! k) \<and> dict ! k \<in> set dict \<and>
      rng rnd dict = Inr \<lparr>value = Some (snd (dict ! k)), chance = Some (fst (dict ! k))\<rparr>"
    by (metis nth_mem)
  ultimately show ?thesis by (simp only: length_shuffle) blast
qed

theorem rng_reads_in_bounds_witness:
  "sum_list (map fst roles_table) = 100 \<and> list_all (\<lambda>c. 0 \<le> c) (map fst roles_table) \<and>
   length (shuffle always_first (flat_array (map fst roles_table))) = 100 \<and>
   (\<exists>k<length roles_table.
      rng always_first roles_table =
        Inr \<lparr>value = Some (snd (roles_table ! k)), chance = Some (fst (roles_table ! k))\<rparr>)"
proof -
  have nonneg: "\<forall>c\<in>set (map fst roles_table). 0 \<le> c" by (simp add: roles_table_def)
  have "list_all (\<lambda>c. 0 \<le> c) (map fst roles_table)" by (simp add: roles_table_def)
  then show ?thesis
    using rng_reads_in_bounds[OF roles_table_sum, of always_first] nonneg roles_table_sum
    by blast
qed

text \<open>
  Claim C10, as it is stated, fails for a table with a negative chance: the chances
  105 and -5 sum to 100, \<open>rng\<close> returns, and the flat array has 105 elements.
\<close>

theorem rng_flat_array_of_105:
  "sum_list (map fst negative_table) = 100 \<and> \<not> isl (rng always_first negative_table) \<and>
   length (shuffle always_first (flat_array (map fst negative_table))) = 105"
  using rng_throws[of always_first negative_table] negative_table_sum
  by (simp add: length_shuffle length_flat_array negative_table_def)


section \<open>Properties of the pool builder\<close>

lemma fold_append_buckets: "fold (\<lambda>r pool. pool @ f r) rs acc = acc @ concat (map f rs)"
  by (induction rs arbitrary: acc) auto

lemma filter_pool_subset: "set (filter_pool stars occ xs) \<subseteq> set xs"
  by (induction xs arbitrary: occ) auto

lemma filter_pool_stars: "e \<in> set (filter_pool stars occ xs) \<Longrightarrow> \<not> wrong_stars stars e"
  by (induction xs arbitrary: occ) (auto split: if_splits)

lemma filter_pool_fresh:
  "e \<in> set (filter_pool stars occ xs) \<Longrightarrow>
   mediaId e \<notin> set inherited \<and> mediaId e \<notin> set occ"
proof (induction xs arbitrary: occ)
  case Nil
  then show ?case by simp
next
  case (Cons x xs)
  then show ?case
    using Cons.IH[of occ] Cons.IH[of "mediaId x # occ"]
    by (auto split: if_splits)
qed

lemma filter_pool_distinct: "distinct (map mediaId (filter_pool stars occ xs))"
proof (induction xs arbitrary: occ)
  case Nil
  then show ?case by simp
next
  case (Cons x xs)
  have "mediaId x \<notin> mediaId ` set (filter_pool stars (mediaId x # occ) xs)"
    using filter_pool_fresh[of _ stars "mediaId x # occ" xs] by fastforce
  then show ?case using Cons.IH by simp
qed

text \<open>
  Per media, the filter keeps the first entry of the list that has the wanted rating,
  and nothing else.
\<close>

lemma filter_pool_first:
  "[e \<leftarrow> filter_pool stars occ xs. mediaId e = m] =
     (if m \<in> set inherited \<or> m \<in> set occ then []
      else take 1 [e \<leftarrow> xs. \<not> wrong_stars stars e \<and> mediaId e = m])"
proof (induction xs arbitrary: occ)
  case Nil
  then show ?case by simp
next
  case (Cons x xs)
  show ?case
  proof (cases "wrong_stars stars x \<or> mediaId x \<in> set inherited \<or> mediaId x \<in> set occ")
    case True
    then show ?thesis using Cons.IH[of occ] by auto
  next
    case False
    then show ?thesis using Cons.IH[of "mediaId x # occ"] by auto
  qed
qed

lemma filter_pool_covers:
  assumes "e \<in> set xs" and "\<not> wrong_stars stars e"
    and "mediaId e \<notin> set inherited" and "mediaId e \<notin> set occ"
  shows "mediaId e \<in> mediaId ` set (filter_pool stars occ xs)"
proof -
  have "[x \<leftarrow> xs. \<not> wrong_stars stars x \<and> mediaId x = mediaId e] \<noteq> []"
    using assms by (auto simp: filter_empty_conv)
  then have "take 1 [x \<leftarrow> xs. \<not> wrong_stars stars x \<and> mediaId x = mediaId e] \<noteq> []"
    by simp
  then have "[x \<leftarrow> filter_pool stars occ xs. mediaId x = mediaId e] \<noteq> []"
    using assms by (simp only: filter_pool_first) simp
  then obtain x where "x \<in> set (filter_pool stars occ xs)" and "mediaId x = mediaId e"
    by (auto simp: filter_empty_conv)
  then show ?thesis by (metis imageI)
qed

lemma candidates_stars:
  "candidates anilist packs key role (Some s) =
     Inr (concat (map (ALL_bucket \<circ> snd) anilist) @ packs)"
  by (simp add: candidates_def cached_def fold_append_buckets)

lemmas pool_eval = pool_def candidates_def cached_def pack_entries_def shuffle_def
  exchange_def wrong_stars_def inherited_def always_first_def List.map_filter_def
  pool_cache_def one_pack_def given_entry_def entry_def upt_rec

lemma pool_of_range:
  "pool always_first pool_cache given_entry one_pack ''[1000,50000]'' None None =
     Inr [entry ''pack:1'' ''pack:7'' 2, entry ''anilist:1'' ''anilist:10'' 1]"
  by (simp add: pool_eval)

lemma pool_of_stars:
  "pool always_first pool_cache given_entry one_pack ''[1000,50000]'' None (Some 1) =
     Inr [entry ''anilist:1'' ''anilist:10'' 1, entry ''anilist:3'' ''anilist:30'' 1]"
  by (simp add: pool_eval)

lemma candidates_of_range:
  "candidates pool_cache (pack_entries given_entry one_pack) ''[1000,50000]'' None None =
     Inr [entry ''anilist:1'' ''anilist:10'' 1, entry ''anilist:2'' ''anilist:10'' 1,
          entry ''pack:1'' ''pack:7'' 2]"
  by (simp add: pool_eval)

text \<open>
  Claim C3. Whatever the cache, the packs, the range, the role, the stars and the outcome
  of the shuffle, a list that \<open>pool\<close> returns has no two entries with the same
  \<open>mediaId\<close>. The shuffled list is a permutation of the candidates, and for each media
  the returned list holds exactly the first entry of the shuffled list that has this
  media and passes the test on the rating (none at all when the media id is the name of
  a property that \<open>occurrences\<close> inherits).
\<close>

theorem pool_media_unique:
  assumes "pool rnd anilist entry_of list key role stars = Inr result"
  shows "distinct (map mediaId result) \<and>
         (\<exists>all. candidates anilist (pack_entries entry_of list) key role stars = Inr all \<and>
            mset (shuffle rnd all) = mset all \<and> set result \<subseteq> set all \<and>
            (\<forall>m. [e \<leftarrow> result. mediaId e = m] =
               (if m \<in> set inherited then []
                else take 1 [e \<leftarrow> shuffle rnd all. \<not> wrong_stars stars e \<and> mediaId e = m])))"
proof -
  from assms obtain all where
    c: "candidates anilist (pack_entries entry_of list) key role stars = Inr all" and
    r: "result = filter_pool stars [] (shuffle rnd all)"
    by (auto simp: pool_def split: sum.splits)
  have "set result \<subseteq> set all"
    using filter_pool_subset[of stars "[]" "shuffle rnd all"] by (simp add: r set_shuffle)
  moreover have "\<forall>m. [e \<leftarrow> result. mediaId e = m] =
      (if m \<in> set inherited then []
       else take 1 [e \<leftarrow> shuffle rnd all. \<not> wrong_stars stars e \<and> mediaId e = m])"
    by (simp add: r filter_pool_first)
  ultimately show ?thesis
    using c by (simp add: r filter_pool_distinct mset_shuffle)
qed

theorem pool_media_unique_witness:
  "pool always_first pool_cache given_entry one_pack ''[1000,50000]'' None None =
     Inr [entry ''pack:1'' ''pack:7'' 2, entry ''anilist:1'' ''anilist:10'' 1] \<and>
   candidates pool_cache (pack_entries given_entry one_pack) ''[1000,50000]'' None None =
     Inr [entry ''anilist:1'' ''anilist:10'' 1, entry ''anilist:2'' ''anilist:10'' 1,
          entry ''pack:1'' ''pack:7'' 2] \<and>
   distinct (map mediaId [entry ''pack:1'' ''pack:7'' 2, entry ''anilist:1'' ''anilist:10'' 1])"
  using pool_media_unique[OF pool_of_range] pool_of_range candidates_of_range by simp

text \<open>
  Claim C7. With a numeric \<open>stars\<close>, \<open>pool\<close> always returns, whatever the range key:
  the list it shuffles is the \<open>ALL\<close> bucket of every range of the cache, one after the
  other, followed by the pack entries. Every entry of the result has the requested
  rating, and every entry of that rating in the \<open>ALL\<close> bucket of any range has its
  media in the result (unless the media id is the name of an inherited property).
\<close>

theorem pool_exact_stars:
  "\<exists>result. pool rnd anilist entry_of list key role (Some s) = Inr result \<and>
     result = filter_pool (Some s) []
       (shuffle rnd (concat (map (ALL_bucket \<circ> snd) anilist) @ pack_entries entry_of list)) \<and>
     (\<forall>e\<in>set result. entry_rating e = s) \<and>
     (\<forall>r\<in>set (map snd anilist). \<forall>e\<in>set (ALL_bucket r).
        entry_rating e = s \<and> mediaId e \<notin> set inherited \<longrightarrow>
        mediaId e \<in> mediaId ` set result)"
proof -
  let ?all = "concat (map (ALL_bucket \<circ> snd) anilist) @ pack_entries entry_of list"
  let ?result = "filter_pool (Some s) [] (shuffle rnd ?all)"
  have p: "pool rnd anilist entry_of list key role (Some s) = Inr ?result"
    by (simp add: pool_def candidates_stars)
  have a: "\<forall>e\<in>set ?result. entry_rating e = s"
    using filter_pool_stars[of _ "Some s" "[]" "shuffle rnd ?all"]
    by (auto simp: wrong_stars_def)
  have b: "mediaId e \<in> mediaId ` set ?result"
    if "r \<in> set (map snd anilist)" and "e \<in> set (ALL_bucket r)"
      and "entry_rating e = s" and "mediaId e \<notin> set inherited" for r e
  proof -
    have "e \<in> set (shuffle rnd ?all)" using that(1,2) by (auto simp: set_shuffle)
    then show ?thesis
      using that(3,4) by (intro filter_pool_covers) (simp_all add: wrong_stars_def)
  qed
  show ?thesis using p a b by blast
qed

theorem pool_exact_stars_witness:
  "pool always_first pool_cache given_entry one_pack ''[1000,50000]'' None (Some 1) =
     Inr [entry ''anilist:1'' ''anilist:10'' 1, entry ''anilist:3'' ''anilist:30'' 1] \<and>
   entry ''anilist:1'' ''anilist:10'' 1 \<in> set (ALL_bucket (snd (pool_cache ! 0))) \<and>
   entry ''anilist:3'' ''anilist:30'' 1 \<in> set (ALL_bucket (snd (pool_cache ! 1))) \<and>
   list_all (\<lambda>e. entry_rating e = 1)
     [entry ''anilist:1'' ''anilist:10'' 1, entry ''anilist:3'' ''anilist:30'' 1]"
proof -
  from pool_exact_stars[of always_first pool_cache given_entry one_pack "''[1000,50000]''" None 1]
  obtain result where
    p: "pool always_first pool_cache given_entry one_pack ''[1000,50000]'' None (Some 1) =
      Inr result" and
    a: "\<forall>e\<in>set result. entry_rating e = 1"
    by blast
  from p have "result = [entry ''anilist:1'' ''anilist:10'' 1, entry ''anilist:3'' ''anilist:30'' 1]"
    unfolding pool_of_stars by simp
  with a have "list_all (\<lambda>e. entry_rating e = 1)
      [entry ''anilist:1'' ''anilist:10'' 1, entry ''anilist:3'' ''anilist:30'' 1]"
    by (simp only: list_all_iff)
  then show ?thesis using pool_of_stars by (simp add: pool_cache_def)
qed


section \<open>Properties of the rating calculator\<close>

lemma popularity_tier_range: "1 \<le> popularity_tier popularity \<and> popularity_tier popularity \<le> 5"
  by (simp add: popularity_tier_def split: option.split)

lemma popularity_tier_mono:
  "p1 \<le> p2 \<Longrightarrow> popularity_tier (Some p1) \<le> popularity_tier (Some p2)"
  by (simp add: popularity_tier_def)

lemma role_tier_mono: "t1 \<le> t2 \<Longrightarrow> role_tier r t1 \<le> role_tier r t2"
  by (cases r) simp_all

lemma role_tier_range: "1 \<le> t \<Longrightarrow> t \<le> 5 \<Longrightarrow> 1 \<le> role_tier r t \<and> role_tier r t \<le> 5"
  by (cases r) simp_all

lemma clamp_stars_mono: "a \<le> b \<Longrightarrow> clamp_stars a \<le> clamp_stars b"
  by (simp add: clamp_stars_def)

lemma clamp_stars_id: "1 \<le> n \<Longrightarrow> n \<le> 5 \<Longrightarrow> clamp_stars n = n"
  by (simp add: clamp_stars_def)

lemma stars_of_role:
  "stars_of None (Some r) popularity = role_tier r (popularity_tier popularity)"
  using role_tier_range[OF conjunct1[OF popularity_tier_range] conjunct2[OF popularity_tier_range]]
  by (simp add: stars_of_def clamp_stars_id)

lemma stars_of_no_role: "stars_of None None popularity = popularity_tier popularity"
  using popularity_tier_range by (simp add: stars_of_def clamp_stars_id)





text \<open>
  Claim C8. The calculator is a function of its inputs, so equal inputs give equal
  stars; and for a fixed role (or none) the stars do not decrease when the popularity
  grows.
\<close>

theorem rating_monotone:
  assumes "p1 < p2"
  shows "stars_of None role (Some p1) \<le> stars_of None role (Some p2)"
proof -
  have t: "popularity_tier (Some p1) \<le> popularity_tier (Some p2)"
    using assms by (simp add: popularity_tier_mono)
  show ?thesis
  proof (cases role)
    case None
    then show ?thesis using t by (simp add: stars_of_no_role)
  next
    case (Some r)
    then show ?thesis using role_tier_mono[OF t] by (simp add: stars_of_role)
  qed
qed

theorem rating_monotone_witness:
  "(4999::int) < 5000 \<and> stars_of None (Some Main) (Some 4999) = 2 \<and>
   stars_of None (Some Main) (Some 5000) = 3 \<and>
   stars_of None (Some Main) (Some 4999) \<le> stars_of None (Some Main) (Some 5000)"
  using rating_monotone[of 4999 5000 "Some Main"]
  by (simp add: stars_of_role popularity_tier_def)

end
